theory Spec2Isabelle
  imports Complex_Main "HOL-Library.Multiset"
begin

section \<open>CLIPTextEncoder: a shallow embedding of \<^verbatim>\<open>clip_text.py\<close>\<close>

text \<open>
  The executor has two methods, \<^verbatim>\<open>__init__\<close> and \<^verbatim>\<open>encode\<close>, and one helper,
  \<^verbatim>\<open>_generate_input_tokens\<close>. Everything they call in \<^verbatim>\<open>docarray\<close>, \<^verbatim>\<open>transformers\<close>
  and \<^verbatim>\<open>torch\<close> is outside the repository: the tokenizer, the model and the
  selection \<^verbatim>\<open>docs[path]\<close> are arguments of the model below, and every call that can
  raise returns a sum whose left side is the exception.
\<close>

subsection \<open>Values, exceptions, effects\<close>

text \<open>The values a \<^verbatim>\<open>parameters\<close> dictionary carries under the two keys the code reads.\<close>

datatype pyval = PyStr string | PyInt int

text \<open>
  An exception is a value. \<open>ValueError\<close> is the one \<^verbatim>\<open>batch\<close> raises;
  \<open>Raised name\<close> is any exception of a collaborator, told apart by its name.
\<close>

datatype exn = ValueError | Raised string

text \<open>What the constructor does besides building the object, in call order.\<close>

datatype event = Warn string string | LoadTokenizer string | LoadModel string

type_synonym ndarray = "real list"

subsection \<open>Documents and the store\<close>

text \<open>
  A \<^verbatim>\<open>Document\<close> has the two attributes the code touches; every other attribute is the
  extension part of the record. \<^verbatim>\<open>text\<close> is a keyword of Isabelle, hence \<open>text_attr\<close>.
  Documents are shared mutable objects: the store maps an address to the object there,
  and a \<^verbatim>\<open>DocumentArray\<close> is the list of the addresses of its members.
\<close>

record document =
  text_attr :: "string option"
  embedding :: "ndarray option"

type_synonym addr = nat

type_synonym 'a store = "addr \<Rightarrow> 'a document_scheme"

text \<open>
  The argument \<^verbatim>\<open>docs\<close> of \<^verbatim>\<open>encode\<close> is used through \<^verbatim>\<open>docs[path]\<close> only, so it is
  that function: the addresses selected, in traversal order, or the exception raised.
\<close>

type_synonym docs = "pyval \<Rightarrow> exn + addr list"

type_synonym parameters = "string \<rightharpoonup> pyval"

text \<open>\<^verbatim>\<open>bool(x.text)\<close>: an absent text and the empty string are falsy.\<close>

fun bool_text :: "string option \<Rightarrow> bool" where
  "bool_text None = False"
| "bool_text (Some t) = (t \<noteq> [])"

subsection \<open>Tokenizer and model\<close>

text \<open>
  A tensor is its rows, the device it is on, and what \<^verbatim>\<open>.to(device)\<close> does for it: the
  exception raised for a device, or none.
\<close>

record tensor =
  tensor_values :: "int list list"
  tensor_device :: string
  tensor_move_error :: "string \<Rightarrow> exn option"

type_synonym input_tokens = "(string \<times> tensor) list"

text \<open>
  A tokenizer is its call with the texts and \<^verbatim>\<open>max_length\<close>; the other keyword
  arguments of line 90 to 96 are constants.
\<close>

type_synonym clip_tokenizer = "string option list \<Rightarrow> int \<Rightarrow> exn + input_tokens"

text \<open>
  A model is its forward pass for text, which may depend on the mode and the device the
  module is in, those two, and what \<^verbatim>\<open>.to(device)\<close> does for it: the exception raised
  for a device (an unknown or unavailable one), or none.
\<close>

record clip_model =
  forward :: "bool \<Rightarrow> string \<Rightarrow> input_tokens \<Rightarrow> exn + ndarray list"
  training :: bool
  model_device :: string
  move_error :: "string \<Rightarrow> exn option"

definition model_eval :: "clip_model \<Rightarrow> clip_model" where
  "model_eval m = m\<lparr>training := False\<rparr>"

definition model_to :: "clip_model \<Rightarrow> string \<Rightarrow> exn + clip_model" where
  "model_to m d =
     (case move_error m d of Some e \<Rightarrow> Inl e | None \<Rightarrow> Inr (m\<lparr>model_device := d\<rparr>))"

definition get_text_features :: "clip_model \<Rightarrow> input_tokens \<Rightarrow> exn + ndarray list" where
  "get_text_features m toks = forward m (training m) (model_device m) toks"

definition tensor_to :: "tensor \<Rightarrow> string \<Rightarrow> exn + tensor" where
  "tensor_to v d =
     (case tensor_move_error v d of Some e \<Rightarrow> Inl e | None \<Rightarrow> Inr (v\<lparr>tensor_device := d\<rparr>))"

text \<open>
  The dictionary comprehension of line 97: every tensor moved in the order of the items,
  stopping at the first exception.
\<close>

fun tokens_to :: "input_tokens \<Rightarrow> string \<Rightarrow> exn + input_tokens" where
  "tokens_to [] d = Inr []"
| "tokens_to ((k, v) # kvs) d =
     (case tensor_to v d of
        Inl e \<Rightarrow> Inl e
      | Inr v' \<Rightarrow>
          (case tokens_to kvs d of
             Inl e \<Rightarrow> Inl e
           | Inr kvs' \<Rightarrow> Inr ((k, v') # kvs')))"

text \<open>The two loaders of \<^verbatim>\<open>transformers\<close>, by identifier.\<close>

record hub =
  CLIPTokenizer_from_pretrained :: "string \<Rightarrow> exn + clip_tokenizer"
  CLIPModel_from_pretrained :: "string \<Rightarrow> exn + clip_model"

subsection \<open>The executor\<close>

record encoder =
  access_paths :: string
  batch_size :: int
  pretrained_model_name_or_path :: string
  base_tokenizer_model :: string
  max_length :: int
  device :: string
  tokenizer :: clip_tokenizer
  model :: clip_model

definition deprecation_message :: string where
  "deprecation_message =
     [CHR 0x27] @ ''traversal_paths'' @ [CHR 0x27] @
     '' will be deprecated in the future, please use '' @
     [CHR 0x27] @ ''access_paths'' @ [CHR 0x27] @ ''.''"

text \<open>\<^verbatim>\<open>base_tokenizer_model or pretrained_model_name_or_path\<close> (line 51 to 53).\<close>

fun py_or :: "string option \<Rightarrow> string \<Rightarrow> string" where
  "py_or None d = d"
| "py_or (Some t) d = (if t \<noteq> [] then t else d)"

text \<open>
  \<^verbatim>\<open>__init__\<close> (line 41 to 59). The arguments are in the order of the signature. The
  result is the events so far and the object, or the exception of the loader or of the
  move to the device (line 59) that failed; the warning of line 44 comes before both
  loads.
\<close>

definition init ::
  "hub \<Rightarrow> string \<Rightarrow> string option \<Rightarrow> int \<Rightarrow> string \<Rightarrow> string \<Rightarrow> string option \<Rightarrow> int
     \<Rightarrow> event list \<times> (exn + encoder)" where
  "init h pretrained tokenizer_name maxlen dev paths traversal_paths bsize =
     (let (self_access_paths, warned) =
            (case traversal_paths of
               Some tp \<Rightarrow> (tp, [Warn deprecation_message ''DeprecationWarning''])
             | None \<Rightarrow> (paths, []));
          self_base_tokenizer_model = py_or tokenizer_name pretrained
      in case CLIPTokenizer_from_pretrained h self_base_tokenizer_model of
           Inl e \<Rightarrow> (warned @ [LoadTokenizer self_base_tokenizer_model], Inl e)
         | Inr tok \<Rightarrow>
             (case CLIPModel_from_pretrained h pretrained of
                Inl e \<Rightarrow>
                  (warned @ [LoadTokenizer self_base_tokenizer_model, LoadModel pretrained],
                   Inl e)
              | Inr m \<Rightarrow>
                  (warned @ [LoadTokenizer self_base_tokenizer_model, LoadModel pretrained],
                   case model_to (model_eval m) dev of
                     Inl e \<Rightarrow> Inl e
                   | Inr moved \<Rightarrow>
                       Inr \<lparr>access_paths = self_access_paths,
                            batch_size = bsize,
                            pretrained_model_name_or_path = pretrained,
                            base_tokenizer_model = self_base_tokenizer_model,
                            max_length = maxlen,
                            device = dev,
                            tokenizer = tok,
                            model = moved\<rparr>)))"

text \<open>The constructor with the defaults of the signature (line 15 to 21).\<close>

definition init_default :: "hub \<Rightarrow> event list \<times> (exn + encoder)" where
  "init_default h = init h ''openai/clip-vit-base-patch32'' None 77 ''cpu'' ''@r'' None 32"

text \<open>The identifiers the tokenizer loader was called with, and the warnings, of a trace.\<close>

fun tokenizer_loads :: "event list \<Rightarrow> string list" where
  "tokenizer_loads [] = []"
| "tokenizer_loads (LoadTokenizer n # es) = n # tokenizer_loads es"
| "tokenizer_loads (_ # es) = tokenizer_loads es"

fun warnings :: "event list \<Rightarrow> (string \<times> string) list" where
  "warnings [] = []"
| "warnings (Warn msg cat # es) = (msg, cat) # warnings es"
| "warnings (_ # es) = warnings es"

text \<open>\<^verbatim>\<open>_generate_input_tokens\<close> (line 88 to 98).\<close>

definition generate_input_tokens :: "encoder \<Rightarrow> string option list \<Rightarrow> exn + input_tokens" where
  "generate_input_tokens self texts =
     (case tokenizer self texts (max_length self) of
        Inl e \<Rightarrow> Inl e
      | Inr toks \<Rightarrow> tokens_to toks (device self))"

text \<open>Line 83 and 84: the vectors of a batch of texts, one row each.\<close>

definition text_features :: "encoder \<Rightarrow> string option list \<Rightarrow> exn + ndarray list" where
  "text_features self text_batch =
     (case generate_input_tokens self text_batch of
        Inl e \<Rightarrow> Inl e
      | Inr toks \<Rightarrow> get_text_features (model self) toks)"

text \<open>
  Line 85 and 86: \<^verbatim>\<open>zip\<close> stops at the shorter of the two sequences, and each
  assignment writes the embedding of the object at that address.
\<close>

fun assign_embeddings :: "'a store \<Rightarrow> addr list \<Rightarrow> ndarray list \<Rightarrow> 'a store" where
  "assign_embeddings s (d # ds) (e # es) =
     assign_embeddings (s(d := (s d)\<lparr>embedding := Some e\<rparr>)) ds es"
| "assign_embeddings s _ _ = s"

text \<open>The body of the loop (line 80 to 86) for one batch.\<close>

definition encode_batch :: "encoder \<Rightarrow> 'a store \<Rightarrow> addr list \<Rightarrow> (exn + unit) \<times> 'a store" where
  "encode_batch self s docs_batch =
     (let text_batch = map (\<lambda>d. text_attr (s d)) docs_batch in
      case text_features self text_batch of
        Inl e \<Rightarrow> (Inl e, s)
      | Inr embeddings \<Rightarrow> (Inr (), assign_embeddings s docs_batch embeddings))"

text \<open>The loop of line 73: batches in order, stopping at the first exception.\<close>

fun encode_loop :: "encoder \<Rightarrow> 'a store \<Rightarrow> addr list list \<Rightarrow> (exn + unit) \<times> 'a store" where
  "encode_loop self s [] = (Inr (), s)"
| "encode_loop self s (b # bs) =
     (case encode_batch self s b of
        (Inl e, s') \<Rightarrow> (Inl e, s')
      | (Inr u, s') \<Rightarrow> encode_loop self s' bs)"

text \<open>
  Modelled from the spec: \<^verbatim>\<open>DocumentArray.batch\<close> of \<^verbatim>\<open>docarray\<close>, which is not in the
  repository. The spec has a batch as a contiguous, order-preserving chunk of at most
  \<^verbatim>\<open>batch_size\<close> records and the batch size as a positive integer; any other value
  fails, here with \<open>ValueError\<close> before the first batch.
\<close>

function batch_list :: "nat \<Rightarrow> 'b list \<Rightarrow> 'b list list" where
  "batch_list n xs = (if n = 0 \<or> xs = [] then [] else take n xs # batch_list n (drop n xs))"
  by pat_completeness auto
termination
  by (relation "measure (\<lambda>(n, xs). length xs)") auto

fun batch :: "pyval \<Rightarrow> 'b list \<Rightarrow> exn + 'b list list" where
  "batch (PyInt n) xs = (if 0 < n then Inr (batch_list (nat n) xs) else Inl ValueError)"
| "batch (PyStr v) xs = Inl ValueError"

text \<open>\<^verbatim>\<open>parameters.get(key, default)\<close> for the two keys (line 76 and 78).\<close>

definition effective_access_paths :: "encoder \<Rightarrow> parameters \<Rightarrow> pyval" where
  "effective_access_paths self ps =
     (case ps ''access_paths'' of None \<Rightarrow> PyStr (access_paths self) | Some v \<Rightarrow> v)"

definition effective_batch_size :: "encoder \<Rightarrow> parameters \<Rightarrow> pyval" where
  "effective_batch_size self ps =
     (case ps ''batch_size'' of None \<Rightarrow> PyInt (batch_size self) | Some v \<Rightarrow> v)"

text \<open>
  The iterable of line 73 to 78: the selection, filtered on the text, in batches. The
  selection is evaluated first, so its exception comes before that of the batch size.
\<close>

definition encode_batches ::
  "encoder \<Rightarrow> docs \<Rightarrow> parameters \<Rightarrow> 'a store \<Rightarrow> exn + addr list list" where
  "encode_batches self ds ps s =
     (case ds (effective_access_paths self ps) of
        Inl e \<Rightarrow> Inl e
      | Inr sel \<Rightarrow>
          batch (effective_batch_size self ps) (filter (\<lambda>x. bool_text (text_attr (s x))) sel))"

text \<open>
  \<^verbatim>\<open>encode\<close> (line 61 to 86). It returns nothing, so the result is \<open>Inr ()\<close> or the
  exception, with the store as the call leaves it.
\<close>

definition encode ::
  "encoder \<Rightarrow> docs \<Rightarrow> parameters \<Rightarrow> 'a store \<Rightarrow> (exn + unit) \<times> 'a store" where
  "encode self ds ps s =
     (case encode_batches self ds ps s of
        Inl e \<Rightarrow> (Inl e, s)
      | Inr bs \<Rightarrow> encode_loop self s bs)"

subsection \<open>Concrete collaborators\<close>

text \<open>
  A tokenizer that gives each text one row holding its length, a model with one vector
  of 512 components per row, and a hub that knows every identifier but the empty one.
  The only device is \<open>cpu\<close>. The second tokenizer fails on a batch that holds the text
  \<open>boom\<close>.
\<close>

definition cpu_only :: "string \<Rightarrow> exn option" where
  "cpu_only d = (if d = ''cpu'' then None else Some (Raised ''RuntimeError''))"

definition example_tokenizer :: clip_tokenizer where
  "example_tokenizer texts maxlen =
     Inr [(''input_ids'',
           \<lparr>tensor_values =
              map (\<lambda>t. [int (length (case t of None \<Rightarrow> [] | Some x \<Rightarrow> x))]) texts,
            tensor_device = ''cpu'',
            tensor_move_error = cpu_only\<rparr>)]"

definition failing_tokenizer :: clip_tokenizer where
  "failing_tokenizer texts maxlen =
     (if Some ''boom'' \<in> set texts then Inl (Raised ''TokenizerError'')
      else example_tokenizer texts maxlen)"

definition example_model :: clip_model where
  "example_model =
     \<lparr>forward = (\<lambda>tr dv toks.
         case toks of
           [] \<Rightarrow> Inl (Raised ''TypeError'')
         | (k, v) # rest \<Rightarrow>
             Inr (map (\<lambda>row. replicate 512 (of_int (sum_list row))) (tensor_values v))),
      training = True,
      model_device = ''cpu'',
      move_error = cpu_only\<rparr>"

definition example_hub :: hub where
  "example_hub =
     \<lparr>CLIPTokenizer_from_pretrained =
        (\<lambda>n. if n = [] then Inl (Raised ''OSError'') else Inr example_tokenizer),
      CLIPModel_from_pretrained =
        (\<lambda>n. if n = [] then Inl (Raised ''OSError'') else Inr example_model)\<rparr>"

text \<open>The executor that the default constructor builds on that hub, and one that fails.\<close>

definition example_encoder :: encoder where
  "example_encoder =
     \<lparr>access_paths = ''@r'',
      batch_size = 32,
      pretrained_model_name_or_path = ''openai/clip-vit-base-patch32'',
      base_tokenizer_model = ''openai/clip-vit-base-patch32'',
      max_length = 77,
      device = ''cpu'',
      tokenizer = example_tokenizer,
      model = example_model\<lparr>training := False, model_device := ''cpu''\<rparr>\<rparr>"

definition failing_encoder :: encoder where
  "failing_encoder = example_encoder\<lparr>tokenizer := failing_tokenizer\<rparr>"

text \<open>
  A tokenizer that pads every row of a batch to the longest text of the batch, as
  \<^verbatim>\<open>padding='longest'\<close> does, and a model whose vector is the width of the row it is
  given: one vector per text, of one component, that depends on the batch.
\<close>

definition padding_tokenizer :: clip_tokenizer where
  "padding_tokenizer texts maxlen =
     (let rows = map (\<lambda>t. map (\<lambda>c. 1) (case t of None \<Rightarrow> [] | Some x \<Rightarrow> x)) texts;
          longest = foldr max (map length rows) 0
      in Inr [(''input_ids'',
               \<lparr>tensor_values = map (\<lambda>r. r @ replicate (longest - length r) 0) rows,
                tensor_device = ''cpu'',
                tensor_move_error = cpu_only\<rparr>)])"

definition padding_model :: clip_model where
  "padding_model =
     \<lparr>forward = (\<lambda>tr dv toks.
         case toks of
           [] \<Rightarrow> Inl (Raised ''TypeError'')
         | (k, v) # rest \<Rightarrow> Inr (map (\<lambda>row. [real (length row)]) (tensor_values v))),
      training = False,
      model_device = ''cpu'',
      move_error = cpu_only\<rparr>"

definition padding_encoder :: encoder where
  "padding_encoder = example_encoder\<lparr>tokenizer := padding_tokenizer, model := padding_model\<rparr>"

text \<open>The vector the example model gives a text.\<close>

definition example_vector :: "string option \<Rightarrow> ndarray" where
  "example_vector t = replicate 512 (real (length (case t of None \<Rightarrow> [] | Some x \<Rightarrow> x)))"

text \<open>
  Five documents: three at the root, the second with an empty text, and two chunks, of
  which the one selected last has the text the failing tokenizer rejects.
\<close>

definition example_store :: "unit store" where
  "example_store a =
     \<lparr>text_attr =
        (if a = 0 then Some ''hello'' else if a = 1 then Some []
         else if a = 2 then Some ''hi'' else if a = 3 then Some ''boom''
         else if a = 4 then Some ''clip'' else None),
      embedding = None\<rparr>"

definition example_docs :: docs where
  "example_docs path =
     (if path = PyStr ''@r'' then Inr [0, 1, 2]
      else if path = PyStr ''@c'' then Inr [4, 3]
      else Inl (Raised ''ValueError''))"

text \<open>The documents of the integration test, 25 of them.\<close>

definition test_store :: "unit store" where
  "test_store a = \<lparr>text_attr = Some ''just some random text here'', embedding = None\<rparr>"

definition test_docs :: docs where
  "test_docs path = Inr [0..<25]"

section \<open>The constructor\<close>

text \<open>
  C7. With \<^verbatim>\<open>traversal_paths\<close> given, one deprecation warning is emitted (also when a
  loader fails afterwards) and the object built is the one that \<^verbatim>\<open>access_paths\<close> set
  to the same value builds, so its \<open>access_paths\<close> is the alias whatever the
  \<^verbatim>\<open>access_paths\<close> argument was. Without it no warning is emitted and \<open>access_paths\<close>
  is the argument.
\<close>

theorem init_traversal_paths:
  "warnings (fst (init h pm tn ml dv ap (Some tp) bs)) =
     [(deprecation_message, ''DeprecationWarning'')]
   \<and> warnings (fst (init h pm tn ml dv ap None bs)) = []
   \<and> snd (init h pm tn ml dv ap (Some tp) bs) = snd (init h pm tn ml dv tp None bs)
   \<and> (\<forall>self. snd (init h pm tn ml dv ap (Some tp) bs) = Inr self \<longrightarrow> access_paths self = tp)
   \<and> (\<forall>self. snd (init h pm tn ml dv ap None bs) = Inr self \<longrightarrow> access_paths self = ap)"
  by (auto simp: init_def Let_def split: sum.splits)

theorem init_traversal_paths_witness:
  "\<exists>self. snd (init example_hub ''openai/clip-vit-base-patch32'' None 77 ''cpu'' ''@r''
                 (Some ''@c'') 32) = Inr self
      \<and> access_paths self = ''@c''"
  using init_traversal_paths
    [of example_hub "''openai/clip-vit-base-patch32''" None 77 "''cpu''" "''@r''" "''@c''" 32]
  by (simp add: init_def Let_def example_hub_def model_to_def model_eval_def example_model_def
      cpu_only_def)

text \<open>
  C9, as amended. The tokenizer is loaded once, from the model identifier when
  \<^verbatim>\<open>base_tokenizer_model\<close> is \<^verbatim>\<open>None\<close> and from \<^verbatim>\<open>base_tokenizer_model\<close> when that is
  a non-empty string.
\<close>

theorem init_tokenizer_identifier:
  "tokenizer_loads (fst (init h pm None ml dv ap tr bs)) = [pm]
   \<and> (tn \<noteq> [] \<longrightarrow> tokenizer_loads (fst (init h pm (Some tn) ml dv ap tr bs)) = [tn])"
  by (cases tr) (auto simp: init_def Let_def split: sum.splits)

theorem init_tokenizer_identifier_witness:
  "tokenizer_loads (fst (init example_hub ''openai/clip-vit-base-patch32''
      (Some ''openai/clip-vit-base-patch16'') 77 ''cpu'' ''@r'' None 32)) =
     [''openai/clip-vit-base-patch16'']"
  using init_tokenizer_identifier
    [of example_hub "''openai/clip-vit-base-patch32''" 77 "''cpu''" "''@r''" None 32
        "''openai/clip-vit-base-patch16''"]
  by simp

text \<open>
  C9, as stated, fails for the empty string: it is supplied (it is not \<^verbatim>\<open>None\<close>), and
  the tokenizer is loaded from the model identifier, not from it.
\<close>

theorem init_tokenizer_supplied_counterexample:
  "tokenizer_loads (fst (init example_hub ''openai/clip-vit-base-patch32'' (Some [])
      77 ''cpu'' ''@r'' None 32)) = [''openai/clip-vit-base-patch32'']
   \<and> tokenizer_loads (fst (init example_hub ''openai/clip-vit-base-patch32'' (Some [])
      77 ''cpu'' ''@r'' None 32)) \<noteq> [[]]"
  by (simp add: init_def Let_def example_hub_def)

text \<open>
  C10. The fallback is a truthiness test: with \<^verbatim>\<open>base_tokenizer_model\<close> the empty
  string the tokenizer is loaded from the model identifier, as with \<^verbatim>\<open>None\<close>, and the
  object built is the one that \<^verbatim>\<open>None\<close> builds.
\<close>

theorem init_tokenizer_falsy:
  "tokenizer_loads (fst (init h pm (Some []) ml dv ap tr bs)) = [pm]
   \<and> tokenizer_loads (fst (init h pm (Some []) ml dv ap tr bs)) =
       tokenizer_loads (fst (init h pm None ml dv ap tr bs))
   \<and> snd (init h pm (Some []) ml dv ap tr bs) = snd (init h pm None ml dv ap tr bs)
   \<and> py_or (Some []) pm = pm"
  by (cases tr) (auto simp: init_def Let_def split: sum.splits)

section \<open>Batches\<close>

text \<open>
  \<open>batch_list\<close> unfolds one batch at a time; the equation is applied by hand, since
  as a rewrite rule it would not terminate.
\<close>

declare batch_list.simps [simp del]

lemma batch_list_Nil: "batch_list n [] = []"
  by (subst batch_list.simps) simp

lemma batch_list_step:
  "0 < n \<Longrightarrow> xs \<noteq> [] \<Longrightarrow> batch_list n xs = take n xs # batch_list n (drop n xs)"
  by (subst batch_list.simps) simp

lemma concat_batch_list: "0 < n \<Longrightarrow> concat (batch_list n xs) = xs"
proof (induction n xs rule: batch_list.induct)
  case (1 n xs)
  show ?case
  proof (cases "xs = []")
    case True
    then show ?thesis by (simp add: batch_list_Nil)
  next
    case False
    with 1 show ?thesis by (simp add: batch_list_step)
  qed
qed

lemma batch_list_member:
  "b \<in> set (batch_list n xs) \<Longrightarrow> b \<noteq> [] \<and> length b \<le> n \<and> set b \<subseteq> set xs"
proof (induction n xs arbitrary: b rule: batch_list.induct)
  case (1 n xs)
  show ?case
  proof (cases "n = 0 \<or> xs = []")
    case True
    with "1.prems" show ?thesis by (subst (asm) batch_list.simps) simp
  next
    case False
    with "1.prems" have "b = take n xs \<or> b \<in> set (batch_list n (drop n xs))"
      by (subst (asm) batch_list.simps) simp
    then show ?thesis
    proof
      assume "b = take n xs"
      with False show ?thesis by (auto dest: in_set_takeD)
    next
      assume "b \<in> set (batch_list n (drop n xs))"
      with "1.IH" False have "b \<noteq> [] \<and> length b \<le> n \<and> set b \<subseteq> set (drop n xs)" by blast
      then show ?thesis by (auto dest: in_set_dropD)
    qed
  qed
qed

lemma sizes_25_10:
  assumes l: "length xs = 25"
  shows "map length (batch_list 10 xs) = [10, 10, 5]"
proof -
  have n1: "xs \<noteq> []" using l by auto
  have n2: "drop 10 xs \<noteq> []" using l by simp
  have n3: "drop 10 (drop 10 xs) \<noteq> []" using l by simp
  have n4: "drop 10 (drop 10 (drop 10 xs)) = []" using l by simp
  have "batch_list 10 xs =
          [take 10 xs, take 10 (drop 10 xs), take 10 (drop 10 (drop 10 xs))]"
    using n1 n2 n3 n4 by (simp add: batch_list_step batch_list_Nil)
  then show ?thesis using l by simp
qed

section \<open>Writing the embeddings\<close>

text \<open>
  The loop of line 85 writes nothing but \<open>embedding\<close>, only at the addresses of the
  batch, and where an address stands twice the later write stays.
\<close>

lemma assign_embeddings_update:
  "\<exists>emb. assign_embeddings s ds es a = (s a)\<lparr>embedding := emb\<rparr>"
proof (induction ds arbitrary: s es)
  case Nil
  have "s a = (s a)\<lparr>embedding := embedding (s a)\<rparr>" by simp
  then show ?case by (metis assign_embeddings.simps(2))
next
  case (Cons d ds)
  show ?case
  proof (cases es)
    case Nil
    have "s a = (s a)\<lparr>embedding := embedding (s a)\<rparr>" by simp
    with Nil show ?thesis by (metis assign_embeddings.simps(3))
  next
    case (Cons e es')
    obtain emb where
      "assign_embeddings (s(d := (s d)\<lparr>embedding := Some e\<rparr>)) ds es' a =
         ((s(d := (s d)\<lparr>embedding := Some e\<rparr>)) a)\<lparr>embedding := emb\<rparr>"
      using Cons.IH by blast
    then have "assign_embeddings s (d # ds) (e # es') a = (s a)\<lparr>embedding := emb\<rparr>"
      by (cases "a = d") simp_all
    with Cons show ?thesis by blast
  qed
qed

lemma assign_embeddings_frame:
  "assign_embeddings s ds es a = (s a)\<lparr>embedding := embedding (assign_embeddings s ds es a)\<rparr>"
proof -
  obtain emb where e: "assign_embeddings s ds es a = (s a)\<lparr>embedding := emb\<rparr>"
    using assign_embeddings_update by blast
  then have "embedding (assign_embeddings s ds es a) = emb" by simp
  with e show ?thesis by simp
qed

lemma assign_embeddings_other:
  "a \<notin> set ds \<Longrightarrow> assign_embeddings s ds es a = s a"
proof (induction ds arbitrary: s es)
  case Nil
  show ?case by simp
next
  case (Cons d ds)
  then show ?case by (cases es) simp_all
qed

lemma text_attr_assign_embeddings:
  "text_attr (assign_embeddings s ds es a) = text_attr (s a)"
proof -
  obtain emb where "assign_embeddings s ds es a = (s a)\<lparr>embedding := emb\<rparr>"
    using assign_embeddings_update by blast
  then show ?thesis by simp
qed

lemma embedding_assign_embeddings:
  "embedding (assign_embeddings s ds es a) =
     (case map_of (rev (zip ds es)) a of None \<Rightarrow> embedding (s a) | Some v \<Rightarrow> Some v)"
proof (induction ds arbitrary: s es)
  case Nil
  show ?case by simp
next
  case (Cons d ds)
  show ?case
  proof (cases es)
    case Nil
    then show ?thesis by simp
  next
    case (Cons e es')
    then show ?thesis
      by (simp add: Cons.IH map_add_def split: option.splits)
  qed
qed

lemma assign_embeddings_map:
  "assign_embeddings s ds (map (\<lambda>d. g (text_attr (s d))) ds) =
     (\<lambda>a. if a \<in> set ds then (s a)\<lparr>embedding := Some (g (text_attr (s a)))\<rparr> else s a)"
proof (induction ds arbitrary: s)
  case Nil
  show ?case by simp
next
  case (Cons d ds)
  let ?s = "s(d := (s d)\<lparr>embedding := Some (g (text_attr (s d)))\<rparr>)"
  have t: "(\<lambda>x. g (text_attr (?s x))) = (\<lambda>x. g (text_attr (s x)))"
    by (simp add: fun_eq_iff)
  have "assign_embeddings s (d # ds) (map (\<lambda>d. g (text_attr (s d))) (d # ds)) =
        assign_embeddings ?s ds (map (\<lambda>x. g (text_attr (?s x))) ds)"
    by (simp only: t list.map assign_embeddings.simps)
  also have "\<dots> = (\<lambda>a. if a \<in> set ds then (?s a)\<lparr>embedding := Some (g (text_attr (?s a)))\<rparr>
                        else ?s a)"
    by (rule Cons.IH)
  also have "\<dots> = (\<lambda>a. if a \<in> set (d # ds) then (s a)\<lparr>embedding := Some (g (text_attr (s a)))\<rparr>
                        else s a)"
    by (auto simp: fun_eq_iff)
  finally show ?case .
qed

lemma embedding_assign_embeddings_cases:
  assumes "length es = length ds"
  shows "(a \<in> set ds \<and> (\<exists>v\<in>set es. embedding (assign_embeddings s ds es a) = Some v))
         \<or> (a \<notin> set ds \<and> embedding (assign_embeddings s ds es a) = embedding (s a))"
proof (cases "map_of (rev (zip ds es)) a")
  case None
  then have "a \<notin> fst ` set (rev (zip ds es))" by (simp add: map_of_eq_None_iff)
  then have "a \<notin> set (map fst (zip ds es))" by simp
  moreover have "map fst (zip ds es) = ds" using assms by simp
  ultimately have "a \<notin> set ds" by metis
  with None show ?thesis by (simp add: embedding_assign_embeddings)
next
  case (Some v)
  then have "(a, v) \<in> set (zip ds es)" using map_of_SomeD by fastforce
  then have "a \<in> set ds" "v \<in> set es" by (auto dest: set_zip_leftD set_zip_rightD)
  with Some show ?thesis by (simp add: embedding_assign_embeddings)
qed

section \<open>One batch and the loop\<close>

text \<open>
  The same for the body of the loop and for the loop: every object keeps its fields but
  \<open>embedding\<close>, and an object outside the batches is not written.
\<close>

lemma embedding_update_self: "\<exists>emb. r = r\<lparr>embedding := emb\<rparr>"
  by (rule exI [of _ "embedding r"]) simp

lemma encode_batch_update:
  "\<exists>emb. snd (encode_batch self s b) a = (s a)\<lparr>embedding := emb\<rparr>"
proof (cases "text_features self (map (\<lambda>d. text_attr (s d)) b)")
  case (Inl e)
  then show ?thesis by (simp add: encode_batch_def embedding_update_self)
next
  case (Inr vs)
  then show ?thesis
    using assign_embeddings_update [of s b vs a] by (simp add: encode_batch_def)
qed

lemma encode_batch_other:
  "a \<notin> set b \<Longrightarrow> snd (encode_batch self s b) a = s a"
  by (cases "text_features self (map (\<lambda>d. text_attr (s d)) b)")
     (simp_all add: encode_batch_def assign_embeddings_other)

lemma encode_loop_update:
  "\<exists>emb. snd (encode_loop self s bss) a = (s a)\<lparr>embedding := emb\<rparr>"
proof (induction bss arbitrary: s)
  case Nil
  show ?case by (simp add: embedding_update_self)
next
  case (Cons b bss)
  obtain r s1 where b: "encode_batch self s b = (r, s1)" by (cases "encode_batch self s b")
  obtain e1 where e1: "s1 a = (s a)\<lparr>embedding := e1\<rparr>"
    using encode_batch_update [of self s b a] b by auto
  show ?case
  proof (cases r)
    case (Inl e)
    with b e1 show ?thesis by auto
  next
    case (Inr u)
    obtain e2 where "snd (encode_loop self s1 bss) a = (s1 a)\<lparr>embedding := e2\<rparr>"
      using Cons.IH by blast
    with e1 have "snd (encode_loop self s1 bss) a = (s a)\<lparr>embedding := e2\<rparr>" by simp
    with b Inr show ?thesis by auto
  qed
qed

lemma encode_loop_other:
  "a \<notin> set (concat bss) \<Longrightarrow> snd (encode_loop self s bss) a = s a"
proof (induction bss arbitrary: s)
  case Nil
  show ?case by simp
next
  case (Cons b bss)
  obtain r s1 where b: "encode_batch self s b = (r, s1)" by (cases "encode_batch self s b")
  have s1: "s1 a = s a" using encode_batch_other [of a b self s] b Cons.prems by simp
  show ?case
  proof (cases r)
    case (Inl e)
    with b s1 show ?thesis by simp
  next
    case (Inr u)
    have "snd (encode_loop self s1 bss) a = s1 a" using Cons by simp
    with b Inr s1 show ?thesis by simp
  qed
qed

lemma text_attr_encode_loop:
  "text_attr (snd (encode_loop self s bss) a) = text_attr (s a)"
proof -
  obtain emb where "snd (encode_loop self s bss) a = (s a)\<lparr>embedding := emb\<rparr>"
    using encode_loop_update by blast
  then show ?thesis by simp
qed

lemma encode_loop_append:
  "encode_loop self s pre = (Inr (), s1) \<Longrightarrow>
   encode_loop self s (pre @ rest) = encode_loop self s1 rest"
proof (induction pre arbitrary: s)
  case Nil
  then show ?case by simp
next
  case (Cons b pre)
  obtain r s2 where b: "encode_batch self s b = (r, s2)" by (cases "encode_batch self s b")
  show ?case
  proof (cases r)
    case (Inl e)
    with b Cons.prems show ?thesis by simp
  next
    case (Inr u)
    with b Cons.prems have "encode_loop self s2 pre = (Inr (), s1)" by simp
    then have "encode_loop self s2 (pre @ rest) = encode_loop self s1 rest" by (rule Cons.IH)
    with b Inr show ?thesis by simp
  qed
qed

lemma encode_batches_member:
  assumes "encode_batches self ds ps s = Inr bss" and "b \<in> set bss"
  shows "b \<noteq> [] \<and> (\<forall>a\<in>set b. bool_text (text_attr (s a)))"
proof -
  from assms(1) obtain sel n where
    bss: "bss = batch_list (nat n) (filter (\<lambda>x. bool_text (text_attr (s x))) sel)"
    by (cases "effective_batch_size self ps")
       (auto simp: encode_batches_def split: sum.splits if_splits)
  with assms(2) show ?thesis using batch_list_member [of b] by fastforce
qed

lemma encode_batches_concat:
  assumes "encode_batches self ds ps s = Inr bss"
      and "ds (effective_access_paths self ps) = Inr sel"
  shows "concat bss = filter (\<lambda>x. bool_text (text_attr (s x))) sel"
  using assms
  by (cases "effective_batch_size self ps")
     (auto simp: encode_batches_def concat_batch_list split: if_splits)

section \<open>The concrete collaborators\<close>

text \<open>
  The example executor is the one the default constructor builds. Its vectors depend on
  the text alone.
\<close>

lemma init_default_example: "snd (init_default example_hub) = Inr example_encoder"
  by (simp add: init_default_def init_def Let_def example_hub_def example_encoder_def
      model_to_def model_eval_def example_model_def cpu_only_def)

lemma text_features_example: "text_features example_encoder texts = Inr (map example_vector texts)"
  by (simp add: text_features_def generate_input_tokens_def get_text_features_def
      example_encoder_def example_tokenizer_def example_model_def
      tensor_to_def cpu_only_def example_vector_def comp_def)

lemma text_features_failing:
  "text_features failing_encoder texts =
     (if Some ''boom'' \<in> set texts then Inl (Raised ''TokenizerError'')
      else Inr (map example_vector texts))"
  by (simp add: text_features_def generate_input_tokens_def get_text_features_def
      failing_encoder_def failing_tokenizer_def
      example_encoder_def example_tokenizer_def example_model_def
      tensor_to_def cpu_only_def example_vector_def comp_def)

lemma length_example_vector: "length (example_vector t) = 512"
  by (simp add: example_vector_def)

lemma example_per_text:
  "\<forall>texts. texts \<noteq> [] \<and> (\<forall>t\<in>set texts. bool_text t) \<longrightarrow>
     text_features example_encoder texts = Inr (map example_vector texts)"
  by (simp add: text_features_example)

lemma example_rows:
  "\<forall>texts vs. texts \<noteq> [] \<and> (\<forall>t\<in>set texts. bool_text t) \<and>
      text_features example_encoder texts = Inr vs \<longrightarrow>
      length vs = length texts \<and> (\<forall>v\<in>set vs. length v = 512)"
  by (auto simp: text_features_example length_example_vector)

lemma example_selection:
  "example_docs (effective_access_paths example_encoder Map.empty) = Inr [0, 1, 2]"
  by (simp add: effective_access_paths_def example_encoder_def example_docs_def)

lemma example_batch_size:
  "effective_batch_size example_encoder Map.empty = PyInt 32"
  by (simp add: effective_batch_size_def example_encoder_def)

section \<open>What a call changes\<close>

text \<open>
  C2. A call changes no field but \<open>embedding\<close>, of any object: the object at an address
  after the call is the object before it with the embedding the call left. An object
  whose text is empty or absent is the same object after the call, so an unset embedding
  stays unset. This holds whether the call returns or raises; when it returns, the
  value is \<open>()\<close>, the only value of the result type.
\<close>

theorem encode_frame:
  "snd (encode self ds ps s) a = (s a)\<lparr>embedding := embedding (snd (encode self ds ps s) a)\<rparr>
   \<and> (\<not> bool_text (text_attr (s a)) \<longrightarrow> snd (encode self ds ps s) a = s a)"
proof (cases "encode_batches self ds ps s")
  case (Inl e)
  then show ?thesis by (simp add: encode_def)
next
  case (Inr bss)
  then have enc: "encode self ds ps s = encode_loop self s bss" by (simp add: encode_def)
  obtain emb where e: "snd (encode_loop self s bss) a = (s a)\<lparr>embedding := emb\<rparr>"
    using encode_loop_update by blast
  then have "embedding (snd (encode_loop self s bss) a) = emb" by simp
  with e have 1: "snd (encode_loop self s bss) a =
      (s a)\<lparr>embedding := embedding (snd (encode_loop self s bss) a)\<rparr>" by simp
  have 2: "snd (encode_loop self s bss) a = s a" if "\<not> bool_text (text_attr (s a))"
  proof -
    have "a \<notin> set (concat bss)" using encode_batches_member [OF Inr] that by auto
    then show ?thesis by (rule encode_loop_other)
  qed
  from 1 2 show ?thesis by (simp add: enc)
qed

theorem encode_frame_witness:
  "snd (encode example_encoder example_docs Map.empty example_store) 1 = example_store 1
   \<and> \<not> bool_text (text_attr (example_store 1))"
  using encode_frame [of example_encoder example_docs Map.empty example_store 1]
  by (simp add: example_store_def)

text \<open>
  C8. When the batches before \<open>b\<close> have completed and the tokenizer or the forward pass
  raises \<open>e\<close> on the texts of \<open>b\<close>, the call raises \<open>e\<close> itself and leaves the store
  exactly as the completed batches left it: their embeddings stay, the batches after
  \<open>b\<close> are not run, and an object outside the completed batches is untouched.
\<close>

theorem encode_failure:
  assumes batches: "encode_batches self ds ps s = Inr (pre @ b # post)"
      and completed: "encode_loop self s pre = (Inr (), s1)"
      and fails: "generate_input_tokens self (map (\<lambda>d. text_attr (s d)) b) = Inl e \<or>
                  (\<exists>toks. generate_input_tokens self (map (\<lambda>d. text_attr (s d)) b) = Inr toks \<and>
                          get_text_features (model self) toks = Inl e)"
  shows "encode self ds ps s = (Inl e, s1) \<and> (\<forall>a. a \<notin> set (concat pre) \<longrightarrow> s1 a = s a)"
proof -
  have t: "map (\<lambda>d. text_attr (s1 d)) b = map (\<lambda>d. text_attr (s d)) b"
    using text_attr_encode_loop [of self s pre] completed by simp
  from fails have "text_features self (map (\<lambda>d. text_attr (s d)) b) = Inl e"
    by (auto simp: text_features_def)
  then have "encode_batch self s1 b = (Inl e, s1)"
    unfolding encode_batch_def Let_def t by simp
  then have "encode_loop self s1 (b # post) = (Inl e, s1)" by simp
  with encode_loop_append [OF completed] batches
  have 1: "encode self ds ps s = (Inl e, s1)" by (simp add: encode_def)
  have 2: "s1 a = s a" if "a \<notin> set (concat pre)" for a
    using encode_loop_other [OF that, of self s] completed by simp
  from 1 2 show ?thesis by blast
qed

theorem encode_failure_witness:
  "encode failing_encoder example_docs
     [''access_paths'' \<mapsto> PyStr ''@c'', ''batch_size'' \<mapsto> PyInt 1] example_store =
     (Inl (Raised ''TokenizerError''),
      example_store(4 := (example_store 4)\<lparr>embedding := Some (example_vector (Some ''clip''))\<rparr>))"
proof -
  let ?ps = "[''access_paths'' \<mapsto> PyStr ''@c'', ''batch_size'' \<mapsto> PyInt 1]"
  let ?s1 = "example_store(4 := (example_store 4)\<lparr>embedding := Some (example_vector (Some ''clip''))\<rparr>)"
  have 1: "encode_batches failing_encoder example_docs ?ps example_store = Inr ([[4]] @ [3] # [])"
    by (simp add: encode_batches_def effective_access_paths_def effective_batch_size_def
        example_docs_def example_store_def batch_list_step batch_list_Nil)
  have 2: "encode_loop failing_encoder example_store [[4]] = (Inr (), ?s1)"
    by (simp add: encode_batch_def text_features_failing example_store_def)
  have 3: "generate_input_tokens failing_encoder (map (\<lambda>d. text_attr (example_store d)) [3]) =
             Inl (Raised ''TokenizerError'')"
    by (simp add: generate_input_tokens_def failing_encoder_def failing_tokenizer_def
        example_store_def)
  from encode_failure [where self = failing_encoder and ds = example_docs and ps = ?ps
      and s = example_store and pre = "[[4]]" and b = "[3]" and post = "[]" and ?s1.0 = ?s1
      and e = "Raised ''TokenizerError''"] 1 2 3
  show ?thesis by blast
qed

section \<open>Batching\<close>

text \<open>
  C4. With a positive batch size \<open>n\<close>, the batches of a call are a partition of the
  filtered selection in its order: their concatenation is the filtered selection, and
  each batch is non-empty and has at most \<open>n\<close> members. For 25 qualifying documents and
  batch size 10 the sizes are 10, 10 and 5.
\<close>

theorem encode_partition:
  assumes sel: "ds (effective_access_paths self ps) = Inr sel"
      and bs: "effective_batch_size self ps = PyInt n" and n: "0 < n"
  shows "\<exists>bss. encode_batches self ds ps s = Inr bss
           \<and> concat bss = filter (\<lambda>x. bool_text (text_attr (s x))) sel
           \<and> (\<forall>b\<in>set bss. b \<noteq> [] \<and> int (length b) \<le> n)
           \<and> (length (filter (\<lambda>x. bool_text (text_attr (s x))) sel) = 25 \<and> n = 10
                \<longrightarrow> map length bss = [10, 10, 5])"
proof -
  let ?xs = "filter (\<lambda>x. bool_text (text_attr (s x))) sel"
  let ?bss = "batch_list (nat n) ?xs"
  have 1: "encode_batches self ds ps s = Inr ?bss"
    using sel bs n by (simp add: encode_batches_def)
  have 2: "concat ?bss = ?xs" using n by (simp add: concat_batch_list)
  have 3: "\<forall>b\<in>set ?bss. b \<noteq> [] \<and> int (length b) \<le> n"
    using batch_list_member [of _ "nat n" ?xs] n by fastforce
  have 4: "map length ?bss = [10, 10, 5]" if "length ?xs = 25" "n = 10"
    using sizes_25_10 [OF that(1)] that(2) by simp
  show ?thesis
  proof (rule exI [of _ ?bss], intro conjI impI)
    show "encode_batches self ds ps s = Inr ?bss" by (rule 1)
    show "concat ?bss = ?xs" by (rule 2)
    show "\<forall>b\<in>set ?bss. b \<noteq> [] \<and> int (length b) \<le> n" by (rule 3)
    assume "length ?xs = 25 \<and> n = 10"
    then have "length ?xs = 25" and "n = 10" by (rule conjunct1, rule conjunct2)
    then show "map length ?bss = [10, 10, 5]" by (rule 4)
  qed
qed

theorem encode_partition_witness:
  "\<exists>bss. encode_batches example_encoder test_docs [''batch_size'' \<mapsto> PyInt 10] test_store = Inr bss
         \<and> map length bss = [10, 10, 5]"
proof -
  have 1: "test_docs (effective_access_paths example_encoder [''batch_size'' \<mapsto> PyInt 10]) =
             Inr [0..<25]"
    by (simp add: test_docs_def)
  have 2: "effective_batch_size example_encoder [''batch_size'' \<mapsto> PyInt 10] = PyInt 10"
    by (simp add: effective_batch_size_def)
  have 3: "length (filter (\<lambda>x. bool_text (text_attr (test_store x))) [0..<25]) = 25"
    by (simp add: test_store_def)
  from encode_partition [where self = example_encoder and ds = test_docs
      and ps = "[''batch_size'' \<mapsto> PyInt 10]" and sel = "[0..<25]" and n = 10
      and s = test_store] 1 2 3
  show ?thesis by auto
qed

text \<open>
  When the model gives each text a vector that does not depend on the batch, the store a
  call leaves is known in closed form: the selected documents with a truthy text hold
  the vector of their text, all others are as they were.
\<close>

lemma encode_loop_per_text:
  assumes pw: "\<forall>texts. texts \<noteq> [] \<and> (\<forall>t\<in>set texts. bool_text t) \<longrightarrow>
                 text_features self texts = Inr (map f texts)"
      and ok: "\<forall>b\<in>set bss. b \<noteq> [] \<and> (\<forall>a\<in>set b. bool_text (text_attr (s a)))"
  shows "encode_loop self s bss =
           (Inr (), \<lambda>a. if a \<in> set (concat bss)
                         then (s a)\<lparr>embedding := Some (f (text_attr (s a)))\<rparr> else s a)"
  using ok
proof (induction bss arbitrary: s)
  case Nil
  show ?case by simp
next
  case (Cons b bss)
  let ?s1 = "\<lambda>a. if a \<in> set b then (s a)\<lparr>embedding := Some (f (text_attr (s a)))\<rparr> else s a"
  have b: "b \<noteq> []" "\<forall>a\<in>set b. bool_text (text_attr (s a))" using Cons.prems by auto
  then have "text_features self (map (\<lambda>d. text_attr (s d)) b) =
               Inr (map f (map (\<lambda>d. text_attr (s d)) b))"
    using pw by simp
  then have 1: "encode_batch self s b = (Inr (), ?s1)"
    using assign_embeddings_map [where s = s and g = f and ds = b]
    by (simp add: encode_batch_def comp_def)
  have "\<forall>b'\<in>set bss. b' \<noteq> [] \<and> (\<forall>a\<in>set b'. bool_text (text_attr (?s1 a)))"
    using Cons.prems by auto
  then have "encode_loop self ?s1 bss =
      (Inr (), \<lambda>a. if a \<in> set (concat bss)
                    then (?s1 a)\<lparr>embedding := Some (f (text_attr (?s1 a)))\<rparr> else ?s1 a)"
    by (rule Cons.IH)
  also have "(\<lambda>a. if a \<in> set (concat bss)
                    then (?s1 a)\<lparr>embedding := Some (f (text_attr (?s1 a)))\<rparr> else ?s1 a) =
             (\<lambda>a. if a \<in> set (concat (b # bss))
                    then (s a)\<lparr>embedding := Some (f (text_attr (s a)))\<rparr> else s a)"
    by (auto simp: fun_eq_iff)
  finally show ?case using 1 by simp
qed

lemma encode_per_text:
  assumes pw: "\<forall>texts. texts \<noteq> [] \<and> (\<forall>t\<in>set texts. bool_text t) \<longrightarrow>
                 text_features self texts = Inr (map f texts)"
      and sel: "ds (effective_access_paths self ps) = Inr sel"
      and bs: "effective_batch_size self ps = PyInt n" "0 < n"
  shows "encode self ds ps s =
           (Inr (), \<lambda>a. if a \<in> set sel \<and> bool_text (text_attr (s a))
                         then (s a)\<lparr>embedding := Some (f (text_attr (s a)))\<rparr> else s a)"
proof -
  let ?bss = "batch_list (nat n) (filter (\<lambda>x. bool_text (text_attr (s x))) sel)"
  have b: "encode_batches self ds ps s = Inr ?bss"
    using sel bs by (simp add: encode_batches_def)
  have c: "concat ?bss = filter (\<lambda>x. bool_text (text_attr (s x))) sel"
    using bs by (simp add: concat_batch_list)
  have "\<forall>b\<in>set ?bss. b \<noteq> [] \<and> (\<forall>a\<in>set b. bool_text (text_attr (s a)))"
    using encode_batches_member [OF b] by blast
  from encode_loop_per_text [OF pw this] b show ?thesis
    by (simp add: encode_def c)
qed

lemma encode_example_returns:
  "fst (encode example_encoder example_docs Map.empty example_store) = Inr ()"
  using encode_per_text [where self = example_encoder and f = example_vector and ds = example_docs
      and ps = Map.empty and sel = "[0, 1, 2]" and n = 32 and s = example_store]
    example_per_text example_selection example_batch_size
  by simp

text \<open>
  C5, as amended. Let the model give each text a vector that does not depend on the
  batch it is in. Then two calls that differ in a positive \<^verbatim>\<open>batch_size\<close> parameter
  only have the same result and leave the same store.
\<close>

theorem encode_batch_size_independent:
  assumes pw: "\<forall>texts. texts \<noteq> [] \<and> (\<forall>t\<in>set texts. bool_text t) \<longrightarrow>
                 text_features self texts = Inr (map f texts)"
      and n: "0 < n" and m: "0 < m"
  shows "encode self ds (ps(''batch_size'' \<mapsto> PyInt n)) s =
         encode self ds (ps(''batch_size'' \<mapsto> PyInt m)) s"
proof -
  have p: "effective_access_paths self (ps(''batch_size'' \<mapsto> PyInt k)) =
           effective_access_paths self ps" for k
    by (simp add: effective_access_paths_def)
  have b: "effective_batch_size self (ps(''batch_size'' \<mapsto> PyInt k)) = PyInt k" for k
    by (simp add: effective_batch_size_def)
  show ?thesis
  proof (cases "ds (effective_access_paths self ps)")
    case (Inl e)
    then show ?thesis by (simp add: encode_def encode_batches_def p)
  next
    case (Inr sel)
    then have d: "ds (effective_access_paths self (ps(''batch_size'' \<mapsto> PyInt k))) = Inr sel" for k
      by (simp add: p)
    have "encode self ds (ps(''batch_size'' \<mapsto> PyInt k)) s =
            (Inr (), \<lambda>a. if a \<in> set sel \<and> bool_text (text_attr (s a))
                          then (s a)\<lparr>embedding := Some (f (text_attr (s a)))\<rparr> else s a)"
      if "0 < k" for k
      using pw d [of k] b [of k] that by (rule encode_per_text)
    from this [OF n] this [OF m] show ?thesis by simp
  qed
qed

theorem encode_batch_size_independent_witness:
  "encode example_encoder example_docs [''batch_size'' \<mapsto> PyInt 1] example_store =
   encode example_encoder example_docs [''batch_size'' \<mapsto> PyInt 50] example_store"
  using encode_batch_size_independent [where self = example_encoder and f = example_vector
      and n = 1 and m = 50 and ds = example_docs and ps = Map.empty and s = example_store]
    example_per_text
  by simp

lemma text_features_padding:
  "text_features padding_encoder [Some ''hello''] = Inr [[5]]"
  "text_features padding_encoder [Some ''hi''] = Inr [[2]]"
  "text_features padding_encoder [Some ''hello'', Some ''hi''] = Inr [[5], [5]]"
  by (simp_all add: text_features_def generate_input_tokens_def get_text_features_def
      padding_encoder_def padding_tokenizer_def padding_model_def example_encoder_def
      tensor_to_def cpu_only_def Let_def)

lemma padding_defaults:
  "access_paths padding_encoder = ''@r''"
  by (simp add: padding_encoder_def example_encoder_def)

text \<open>
  C5, as stated, fails: the code hands each batch to the tokenizer as a whole, and
  nothing in it makes the vector of a text independent of the other texts of its batch.
  With the tokenizer that pads to the longest text of the batch and the model that reads
  the width of its row, the document with the text \<open>hi\<close> gets the vector \<open>[2]\<close> at batch
  size 1, alone in its batch, and \<open>[5]\<close> at batch size 50, in one batch with \<open>hello\<close>.
\<close>

theorem encode_batch_size_counterexample:
  "embedding (snd (encode padding_encoder example_docs [''batch_size'' \<mapsto> PyInt 1]
                     example_store) 2) = Some [2]
   \<and> embedding (snd (encode padding_encoder example_docs [''batch_size'' \<mapsto> PyInt 50]
                     example_store) 2) = Some [5]"
proof -
  have roots: "example_docs (PyStr ''@r'') = Inr [0, 1, 2]"
    by (simp add: example_docs_def)
  have t: "text_attr (example_store 0) = Some ''hello''" "text_attr (example_store 2) = Some ''hi''"
    by (simp_all add: example_store_def)
  have one: "encode_batches padding_encoder example_docs [''batch_size'' \<mapsto> PyInt 1]
               example_store = Inr [[0], [2]]"
    by (simp add: encode_batches_def effective_access_paths_def effective_batch_size_def
        padding_defaults roots example_store_def batch_list_step batch_list_Nil)
  have fifty: "encode_batches padding_encoder example_docs [''batch_size'' \<mapsto> PyInt 50]
               example_store = Inr [[0, 2]]"
    by (simp add: encode_batches_def effective_access_paths_def effective_batch_size_def
        padding_defaults roots example_store_def batch_list_step batch_list_Nil)
  show ?thesis
    by (simp add: encode_def one fifty encode_batch_def t text_features_padding)
qed

section \<open>Parameters\<close>

text \<open>
  The two defaults are read by \<^verbatim>\<open>parameters.get\<close> only; the loop does not depend on
  them.
\<close>

lemma text_features_defaults:
  "text_features (self\<lparr>access_paths := p, batch_size := n\<rparr>) = text_features self"
  by (simp add: fun_eq_iff text_features_def generate_input_tokens_def cong: sum.case_cong)

lemma encode_loop_defaults:
  "encode_loop (self\<lparr>access_paths := p, batch_size := n\<rparr>) s bss = encode_loop self s bss"
proof (induction bss arbitrary: s)
  case Nil
  show ?case by simp
next
  case (Cons b bss)
  have "encode_batch (self\<lparr>access_paths := p, batch_size := n\<rparr>) s b = encode_batch self s b"
    unfolding encode_batch_def text_features_defaults ..
  then show ?case by (simp add: Cons.IH cong: sum.case_cong prod.case_cong)
qed

text \<open>
  A call with \<^verbatim>\<open>parameters\<close> is the call without parameters on the executor whose
  defaults are replaced by the values under the two keys, each only when its key is
  present.
\<close>

lemma encode_defaults_replaced:
  assumes "ps ''access_paths'' = None \<or> ps ''access_paths'' = Some (PyStr p)"
      and "ps ''batch_size'' = None \<or> ps ''batch_size'' = Some (PyInt n)"
  shows "encode self ds ps s =
         encode (self\<lparr>access_paths := (if ps ''access_paths'' = None then access_paths self else p),
                      batch_size := (if ps ''batch_size'' = None then batch_size self else n)\<rparr>)
           ds Map.empty s"
proof -
  let ?self = "self\<lparr>access_paths := (if ps ''access_paths'' = None then access_paths self else p),
                      batch_size := (if ps ''batch_size'' = None then batch_size self else n)\<rparr>"
  have 1: "effective_access_paths ?self Map.empty = effective_access_paths self ps"
    using assms(1) by (auto simp: effective_access_paths_def)
  have 2: "effective_batch_size ?self Map.empty = effective_batch_size self ps"
    using assms(2) by (auto simp: effective_batch_size_def)
  have "encode_batches ?self ds Map.empty s = encode_batches self ds ps s"
    unfolding encode_batches_def 1 2 ..
  then show ?thesis
    unfolding encode_def by (simp add: encode_loop_defaults cong: sum.case_cong)
qed

lemma text_attr_encode:
  "text_attr (snd (encode self ds ps s) a) = text_attr (s a)"
  by (cases "encode_batches self ds ps s") (simp_all add: encode_def text_attr_encode_loop)

lemma example_defaults:
  "access_paths example_encoder = ''@r''" "batch_size example_encoder = 32"
  by (simp_all add: example_encoder_def)

text \<open>
  C6. The call selects with the value under \<^verbatim>\<open>access_paths\<close> when the key is present
  and with the default of the executor when it is absent, and it batches with the value
  under \<^verbatim>\<open>batch_size\<close> when that key is present and with the default when it is absent:
  for every collection, dictionary and store, the batches of the call are those of that
  path and that batch size, and the call runs the loop on them, or raises what the
  selection or the batching raises. The override lasts for the call: the batches of a
  following call without parameters are those of the two defaults, whatever the
  dictionary of the call before was (\<^verbatim>\<open>encode\<close> assigns no attribute of \<^verbatim>\<open>self\<close>).
\<close>

theorem encode_parameters_used:
  assumes path: "path = (case ps ''access_paths'' of
                           None \<Rightarrow> PyStr (access_paths self) | Some v \<Rightarrow> v)"
      and bsz: "bsz = (case ps ''batch_size'' of
                         None \<Rightarrow> PyInt (batch_size self) | Some v \<Rightarrow> v)"
  shows "encode_batches self ds ps s =
           (case ds path of
              Inl e \<Rightarrow> Inl e
            | Inr sel \<Rightarrow> batch bsz (filter (\<lambda>x. bool_text (text_attr (s x))) sel))
         \<and> encode self ds ps s =
           (case ds path of
              Inl e \<Rightarrow> (Inl e, s)
            | Inr sel \<Rightarrow>
                (case batch bsz (filter (\<lambda>x. bool_text (text_attr (s x))) sel) of
                   Inl e \<Rightarrow> (Inl e, s)
                 | Inr bss \<Rightarrow> encode_loop self s bss))
         \<and> encode_batches self ds Map.empty (snd (encode self ds ps s)) =
           (case ds (PyStr (access_paths self)) of
              Inl e \<Rightarrow> Inl e
            | Inr sel \<Rightarrow>
                batch (PyInt (batch_size self)) (filter (\<lambda>x. bool_text (text_attr (s x))) sel))"
proof -
  have p: "effective_access_paths self ps = path"
    by (simp add: effective_access_paths_def path)
  have b: "effective_batch_size self ps = bsz"
    by (simp add: effective_batch_size_def bsz)
  have 1: "encode_batches self ds ps s =
           (case ds path of
              Inl e \<Rightarrow> Inl e
            | Inr sel \<Rightarrow> batch bsz (filter (\<lambda>x. bool_text (text_attr (s x))) sel))"
    unfolding encode_batches_def p b ..
  have 2: "encode self ds ps s =
           (case ds path of
              Inl e \<Rightarrow> (Inl e, s)
            | Inr sel \<Rightarrow>
                (case batch bsz (filter (\<lambda>x. bool_text (text_attr (s x))) sel) of
                   Inl e \<Rightarrow> (Inl e, s)
                 | Inr bss \<Rightarrow> encode_loop self s bss))"
    unfolding encode_def 1 by (simp split: sum.splits)
  have 3: "encode_batches self ds Map.empty (snd (encode self ds ps s)) =
           (case ds (PyStr (access_paths self)) of
              Inl e \<Rightarrow> Inl e
            | Inr sel \<Rightarrow>
                batch (PyInt (batch_size self)) (filter (\<lambda>x. bool_text (text_attr (s x))) sel))"
    by (simp add: encode_batches_def effective_access_paths_def effective_batch_size_def
        text_attr_encode cong: sum.case_cong)
  from 1 2 3 show ?thesis by (intro conjI)
qed

theorem encode_parameters_used_witness:
  "encode_batches example_encoder example_docs
     [''access_paths'' \<mapsto> PyStr ''@c'', ''batch_size'' \<mapsto> PyInt 1] example_store = Inr [[4], [3]]
   \<and> encode_batches example_encoder example_docs [''batch_size'' \<mapsto> PyInt 1] example_store =
       Inr [[0], [2]]
   \<and> encode_batches example_encoder example_docs Map.empty
       (snd (encode example_encoder example_docs
               [''access_paths'' \<mapsto> PyStr ''@c'', ''batch_size'' \<mapsto> PyInt 1] example_store)) =
       Inr [[0, 2]]"
proof -
  let ?ps = "[''access_paths'' \<mapsto> PyStr ''@c'', ''batch_size'' \<mapsto> PyInt 1]"
  let ?qs = "[''batch_size'' \<mapsto> PyInt 1]"
  have chunks: "example_docs (PyStr ''@c'') = Inr [4, 3]"
    and roots: "example_docs (PyStr ''@r'') = Inr [0, 1, 2]"
    by (simp_all add: example_docs_def)
  have p1: "PyStr ''@c'' = (case ?ps ''access_paths'' of
                               None \<Rightarrow> PyStr (access_paths example_encoder) | Some v \<Rightarrow> v)"
    and p2: "PyInt 1 = (case ?ps ''batch_size'' of
                          None \<Rightarrow> PyInt (batch_size example_encoder) | Some v \<Rightarrow> v)"
    and q1: "PyStr ''@r'' = (case ?qs ''access_paths'' of
                               None \<Rightarrow> PyStr (access_paths example_encoder) | Some v \<Rightarrow> v)"
    and q2: "PyInt 1 = (case ?qs ''batch_size'' of
                          None \<Rightarrow> PyInt (batch_size example_encoder) | Some v \<Rightarrow> v)"
    by (simp_all add: example_defaults)
  have "encode_batches example_encoder example_docs ?ps example_store =
          (case example_docs (PyStr ''@c'') of
             Inl e \<Rightarrow> Inl e
           | Inr sel \<Rightarrow>
               batch (PyInt 1) (filter (\<lambda>x. bool_text (text_attr (example_store x))) sel))"
    and "encode_batches example_encoder example_docs Map.empty
           (snd (encode example_encoder example_docs ?ps example_store)) =
          (case example_docs (PyStr (access_paths example_encoder)) of
             Inl e \<Rightarrow> Inl e
           | Inr sel \<Rightarrow>
               batch (PyInt (batch_size example_encoder))
                 (filter (\<lambda>x. bool_text (text_attr (example_store x))) sel))"
    using encode_parameters_used [where self = example_encoder and ds = example_docs
        and ps = ?ps and s = example_store and path = "PyStr ''@c''" and bsz = "PyInt 1",
        OF p1 p2]
    by blast+
  moreover have "encode_batches example_encoder example_docs ?qs example_store =
          (case example_docs (PyStr ''@r'') of
             Inl e \<Rightarrow> Inl e
           | Inr sel \<Rightarrow>
               batch (PyInt 1) (filter (\<lambda>x. bool_text (text_attr (example_store x))) sel))"
    using encode_parameters_used [where self = example_encoder and ds = example_docs
        and ps = ?qs and s = example_store and path = "PyStr ''@r''" and bsz = "PyInt 1",
        OF q1 q2]
    by blast
  ultimately show ?thesis
    by (simp add: example_defaults chunks roots example_store_def batch_list_step
        batch_list_Nil)
qed

section \<open>The embeddings written\<close>

text \<open>
  A batch whose vectors have the model's width leaves such a vector on each of its
  documents and keeps those written by earlier batches.
\<close>

lemma encode_batch_dim:
  assumes wf: "\<forall>texts vs. texts \<noteq> [] \<and> (\<forall>t\<in>set texts. bool_text t) \<and>
                  text_features self texts = Inr vs \<longrightarrow>
                  length vs = length texts \<and> (\<forall>v\<in>set vs. length v = width)"
      and b: "b \<noteq> []" "\<forall>a\<in>set b. bool_text (text_attr (s a))"
      and r: "encode_batch self s b = (Inr (), s1)"
      and a: "a \<in> set b \<or> (\<exists>v. embedding (s a) = Some v \<and> length v = width)"
  shows "\<exists>v. embedding (s1 a) = Some v \<and> length v = width"
proof -
  let ?texts = "map (\<lambda>d. text_attr (s d)) b"
  from r obtain vs where vs: "text_features self ?texts = Inr vs"
    and s1: "s1 = assign_embeddings s b vs"
    by (auto simp: encode_batch_def split: sum.splits)
  have "?texts \<noteq> [] \<and> (\<forall>t\<in>set ?texts. bool_text t)" using b by simp
  with wf vs have len: "length vs = length b" and width: "\<forall>v\<in>set vs. length v = width"
    by (metis length_map)+
  from embedding_assign_embeddings_cases [OF len, of a s] a width show ?thesis
    unfolding s1 by auto
qed

lemma encode_loop_dim:
  assumes wf: "\<forall>texts vs. texts \<noteq> [] \<and> (\<forall>t\<in>set texts. bool_text t) \<and>
                  text_features self texts = Inr vs \<longrightarrow>
                  length vs = length texts \<and> (\<forall>v\<in>set vs. length v = width)"
      and ok: "\<forall>b\<in>set bss. b \<noteq> [] \<and> (\<forall>a\<in>set b. bool_text (text_attr (s a)))"
      and r: "encode_loop self s bss = (Inr (), s')"
      and a: "a \<in> set (concat bss) \<or> (\<exists>v. embedding (s a) = Some v \<and> length v = width)"
  shows "\<exists>v. embedding (s' a) = Some v \<and> length v = width"
  using ok r a
proof (induction bss arbitrary: s)
  case Nil
  then show ?case by simp
next
  case (Cons b bss)
  obtain r1 s1 where b: "encode_batch self s b = (r1, s1)" by (cases "encode_batch self s b")
  with Cons.prems(2) have r1: "r1 = Inr ()" and rest: "encode_loop self s1 bss = (Inr (), s')"
    by (cases r1; simp)+
  have t: "text_attr (s1 x) = text_attr (s x)" for x
    using encode_batch_update [of self s b x] b by auto
  have ok1: "\<forall>b'\<in>set bss. b' \<noteq> [] \<and> (\<forall>a\<in>set b'. bool_text (text_attr (s1 a)))"
    using Cons.prems(1) by (simp add: t)
  have bok: "b \<noteq> []" "\<forall>a\<in>set b. bool_text (text_attr (s a))" using Cons.prems(1) by auto
  have "a \<in> set (concat bss) \<or> (\<exists>v. embedding (s1 a) = Some v \<and> length v = width)"
  proof (cases "a \<in> set (concat bss)")
    case True
    then show ?thesis by simp
  next
    case False
    with Cons.prems(3) have "a \<in> set b \<or> (\<exists>v. embedding (s a) = Some v \<and> length v = width)"
      by auto
    from encode_batch_dim [OF wf bok b [unfolded r1] this] show ?thesis by simp
  qed
  from Cons.IH [OF ok1 rest this] show ?case .
qed

text \<open>
  A call returns when the selection and the batch size are well-formed and the model
  returns on every non-empty batch of truthy texts.
\<close>

lemma encode_loop_returns:
  assumes total: "\<forall>texts. texts \<noteq> [] \<and> (\<forall>t\<in>set texts. bool_text t) \<longrightarrow>
                    (\<exists>vs. text_features self texts = Inr vs)"
      and ok: "\<forall>b\<in>set bss. b \<noteq> [] \<and> (\<forall>a\<in>set b. bool_text (text_attr (s a)))"
  shows "fst (encode_loop self s bss) = Inr ()"
  using ok
proof (induction bss arbitrary: s)
  case Nil
  show ?case by simp
next
  case (Cons b bss)
  let ?texts = "map (\<lambda>d. text_attr (s d)) b"
  have "?texts \<noteq> [] \<and> (\<forall>t\<in>set ?texts. bool_text t)" using Cons.prems by simp
  with total obtain vs where vs: "text_features self ?texts = Inr vs" by blast
  let ?s1 = "assign_embeddings s b vs"
  have b: "encode_batch self s b = (Inr (), ?s1)" using vs by (simp add: encode_batch_def)
  have "\<forall>b'\<in>set bss. b' \<noteq> [] \<and> (\<forall>a\<in>set b'. bool_text (text_attr (?s1 a)))"
    using Cons.prems by (simp add: text_attr_assign_embeddings)
  then have "fst (encode_loop self ?s1 bss) = Inr ()" by (rule Cons.IH)
  with b show ?case by simp
qed

lemma encode_returns:
  assumes total: "\<forall>texts. texts \<noteq> [] \<and> (\<forall>t\<in>set texts. bool_text t) \<longrightarrow>
                    (\<exists>vs. text_features self texts = Inr vs)"
      and sel: "ds (effective_access_paths self ps) = Inr sel"
      and bs: "effective_batch_size self ps = PyInt n" "0 < n"
  shows "fst (encode self ds ps s) = Inr ()"
proof -
  let ?bss = "batch_list (nat n) (filter (\<lambda>x. bool_text (text_attr (s x))) sel)"
  have b: "encode_batches self ds ps s = Inr ?bss"
    using sel bs by (simp add: encode_batches_def)
  have "\<forall>b\<in>set ?bss. b \<noteq> [] \<and> (\<forall>a\<in>set b. bool_text (text_attr (s a)))"
    using encode_batches_member [OF b] by blast
  with total have "fst (encode_loop self s ?bss) = Inr ()" by (rule encode_loop_returns)
  with b show ?thesis by (simp add: encode_def)
qed

text \<open>
  C1. Let the model, whenever it returns on a non-empty batch of truthy texts, return
  one vector per text, each of the width \<open>width\<close>. After a call that returns, every
  document of the selection with a truthy text has an embedding that is set and has
  that width (512 in the example).
\<close>

theorem encode_embedding_dim:
  assumes wf: "\<forall>texts vs. texts \<noteq> [] \<and> (\<forall>t\<in>set texts. bool_text t) \<and>
                  text_features self texts = Inr vs \<longrightarrow>
                  length vs = length texts \<and> (\<forall>v\<in>set vs. length v = width)"
      and sel: "ds (effective_access_paths self ps) = Inr sel"
      and a: "a \<in> set sel" "bool_text (text_attr (s a))"
      and r: "encode self ds ps s = (Inr (), s')"
  shows "\<exists>v. embedding (s' a) = Some v \<and> length v = width"
proof -
  from r obtain bss where bss: "encode_batches self ds ps s = Inr bss"
    and loop: "encode_loop self s bss = (Inr (), s')"
    by (cases "encode_batches self ds ps s") (simp_all add: encode_def)
  have "concat bss = filter (\<lambda>x. bool_text (text_attr (s x))) sel"
    using bss sel by (rule encode_batches_concat)
  with a have "a \<in> set (concat bss)" by simp
  moreover have "\<forall>b\<in>set bss. b \<noteq> [] \<and> (\<forall>a\<in>set b. bool_text (text_attr (s a)))"
    using encode_batches_member [OF bss] by blast
  ultimately show ?thesis using encode_loop_dim [OF wf _ loop] by blast
qed

theorem encode_embedding_dim_witness:
  "\<exists>v. embedding (snd (encode example_encoder example_docs Map.empty example_store) 0) = Some v
       \<and> length v = 512"
proof -
  have a: "(0::nat) \<in> set [0, 1, 2]" by simp
  have t: "bool_text (text_attr (example_store 0))" by (simp add: example_store_def)
  have r: "encode example_encoder example_docs Map.empty example_store =
             (Inr (), snd (encode example_encoder example_docs Map.empty example_store))"
    using encode_example_returns by (simp add: prod_eq_iff)
  show ?thesis
    using encode_embedding_dim [where self = example_encoder and width = 512
        and ds = example_docs and ps = Map.empty and sel = "[0, 1, 2]" and a = 0
        and s = example_store
        and s' = "snd (encode example_encoder example_docs Map.empty example_store)"]
      example_rows example_selection a t r
    by blast
qed



end
